theory Spec2Isabelle
  imports Main "HOL-Library.Char_ord" "HOL-Library.List_Lexorder"
begin

section \<open>Packets and flow keys\<close>

text \<open>
  A captured packet, as far as \<^verbatim>\<open>network_analyzer.py\<close> reads it: the optional IP layer
  (\<^verbatim>\<open>'IP' in packet\<close>, \<^verbatim>\<open>packet['IP'].src/.dst/.proto\<close>), \<^verbatim>\<open>packet.time\<close>,
  \<^verbatim>\<open>len(packet)\<close> and \<^verbatim>\<open>packet.summary()\<close>.

  \<^verbatim>\<open>packet.time\<close> is a \<^verbatim>\<open>float\<close> on a packet that \<^verbatim>\<open>sniff\<close> captured and an
  \<^verbatim>\<open>EDecimal\<close> (a subclass of \<^verbatim>\<open>decimal.Decimal\<close>) on a packet that \<^verbatim>\<open>rdpcap\<close> read
  from a file; the model keeps the kind of the value and its whole seconds.
\<close>

record ip_layer =
  src :: string
  dst :: string
  proto :: nat

datatype timestamp = FloatTime int | EDecimal int

record packet =
  ip :: "ip_layer option"
  pkt_time :: timestamp
  pkt_len :: nat
  pkt_summary :: string

type_synonym flow_key = "string \<times> string"

text \<open>
  \<^verbatim>\<open>conversation_key = tuple(sorted((src, dst)))\<close>: Python compares strings
  lexicographically, and its stable sort swaps two elements only when the second is
  strictly smaller than the first.
\<close>

definition conversation_key :: "string \<Rightarrow> string \<Rightarrow> flow_key" where
  "conversation_key a b = (if b < a then (b, a) else (a, b))"

definition packet_key :: "packet \<Rightarrow> flow_key option" where
  "packet_key p = (case ip p of None \<Rightarrow> None | Some l \<Rightarrow> Some (conversation_key (src l) (dst l)))"

definition has_ip :: "packet \<Rightarrow> bool" where
  "has_ip p = (ip p \<noteq> None)"

section \<open>The conversation store\<close>

text \<open>
  \<^verbatim>\<open>self.conversations = defaultdict(lambda: {"count": 0, "packets": []})\<close>. A Python
  dict keeps its keys in insertion order, which \<^verbatim>\<open>sorted\<close> later relies on, so the store
  is an association list in insertion order.
\<close>

record conversation =
  conv_count :: nat
  conv_packets :: "packet list"

type_synonym store = "(flow_key \<times> conversation) list"

definition default_conversation :: conversation where
  "default_conversation = \<lparr>conv_count = 0, conv_packets = []\<rparr>"

text \<open>Reading a missing key of a \<^verbatim>\<open>defaultdict\<close> inserts the default value at the end.\<close>

definition touch :: "flow_key \<Rightarrow> store \<Rightarrow> store" where
  "touch k cs = (if k \<in> set (map fst cs) then cs else cs @ [(k, default_conversation)])"

fun modify :: "(conversation \<Rightarrow> conversation) \<Rightarrow> flow_key \<Rightarrow> store \<Rightarrow> store" where
  "modify f k [] = []"
| "modify f k ((k', c) # cs) = (if k' = k then (k', f c) # cs else (k', c) # modify f k cs)"

definition lookup :: "store \<Rightarrow> flow_key \<Rightarrow> conversation" where
  "lookup cs k = (case map_of cs k of None \<Rightarrow> default_conversation | Some c \<Rightarrow> c)"

section \<open>The communication graph\<close>

text \<open>
  \<^verbatim>\<open>networkx.Graph\<close>: an undirected simple graph. \<^verbatim>\<open>add_edge(u, v)\<close> adds both nodes when
  they are new and the edge when neither orientation of it is present;
  \<^verbatim>\<open>clear()\<close> removes everything.
\<close>

record graph =
  nodes :: "string list"
  edges :: "(string \<times> string) list"

definition empty_graph :: graph where
  "empty_graph = \<lparr>nodes = [], edges = []\<rparr>"

definition add_node :: "graph \<Rightarrow> string \<Rightarrow> graph" where
  "add_node g u = (if u \<in> set (nodes g) then g else g\<lparr>nodes := nodes g @ [u]\<rparr>)"

definition has_edge :: "graph \<Rightarrow> string \<Rightarrow> string \<Rightarrow> bool" where
  "has_edge g u v = ((u, v) \<in> set (edges g) \<or> (v, u) \<in> set (edges g))"

definition add_edge :: "graph \<Rightarrow> string \<Rightarrow> string \<Rightarrow> graph" where
  "add_edge g u v =
     (if has_edge g u v then add_node (add_node g u) v
      else (add_node (add_node g u) v)\<lparr>edges := edges g @ [(u, v)]\<rparr>)"


section \<open>The application state\<close>

text \<open>
  A row of the traffic table: the tuple \<^verbatim>\<open>packet_data\<close> of \<^verbatim>\<open>add_packet_to_tree\<close> and the
  row's tag.
\<close>

record row =
  row_no :: nat
  row_time :: string
  row_src :: string
  row_dst :: string
  row_proto :: string
  row_length :: nat
  row_info :: string
  row_tag :: string

datatype error = TypeError | OverflowError | OSError | IndexError | KeyError

text \<open>
  The host's \<^verbatim>\<open>time.strftime('%H:%M:%S', time.localtime(t))\<close>: the text of the time
  column, or the exception that \<^verbatim>\<open>time.localtime\<close> raises. Which timestamps it accepts
  depends on the Python version (from 3.10 on a \<^verbatim>\<open>Decimal\<close> is refused with
  \<^verbatim>\<open>TypeError\<close>), on the platform's \<^verbatim>\<open>time_t\<close> (\<^verbatim>\<open>OverflowError\<close>, \<^verbatim>\<open>OSError\<close>) and on
  the time zone, so it is a parameter of everything that makes a row.
\<close>

type_synonym clock = "timestamp \<Rightarrow> error + string"

definition renders :: "clock \<Rightarrow> packet \<Rightarrow> bool" where
  "renders clk p = (case clk (pkt_time p) of Inl e \<Rightarrow> False | Inr t \<Rightarrow> True)"

text \<open>
  The fields of \<^verbatim>\<open>NetworkAnalyzerApp\<close> that the handlers read or write. A conversation
  button is kept as its key and the count its text shows; \<^verbatim>\<open>canvas\<close> is the graph last
  drawn by \<^verbatim>\<open>update_network_map\<close>; \<^verbatim>\<open>after_queue\<close> holds the packets handed to
  \<^verbatim>\<open>self.after(0, self._process_packet, packet)\<close> and not yet processed by the event loop;
  \<^verbatim>\<open>callback_errors\<close> collects the exceptions that escape a Tk callback (Tk reports them
  and the event loop goes on, the state staying as mutated so far).
\<close>

record state =
  packets :: "packet list"
  conversations :: store
  selected_conversation :: "flow_key option"
  graph :: graph
  is_sniffing :: bool
  packet_tree :: "row list"
  conv_scroll_frame :: "(flow_key \<times> nat) list"
  source_ip_textbox :: string
  dest_ip_textbox :: string
  canvas :: graph
  after_queue :: "packet list"
  callback_errors :: "error list"

definition init :: state where
  "init = \<lparr>packets = [], conversations = [], selected_conversation = None,
     graph = empty_graph, is_sniffing = False, packet_tree = [], conv_scroll_frame = [],
     source_ip_textbox = [], dest_ip_textbox = [], canvas = empty_graph,
     after_queue = [], callback_errors = []\<rparr>"

section \<open>Rendering a row\<close>

definition digit :: "nat \<Rightarrow> char" where
  "digit d = ''0123456789'' ! d"

function str :: "nat \<Rightarrow> string" where
  "str n = (if n < 10 then [digit n] else str (n div 10) @ [digit (n mod 10)])"
  by pat_completeness auto
termination
  by (relation "measure id") auto

declare str.simps [simp del]

text \<open>\<^verbatim>\<open>proto_map = {6: 'TCP', 17: 'UDP', 1: 'ICMP'}; proto_map.get(proto, str(proto))\<close>\<close>

definition proto_name :: "nat \<Rightarrow> string" where
  "proto_name p = (if p = 6 then ''TCP'' else if p = 17 then ''UDP''
                   else if p = 1 then ''ICMP'' else str p)"

definition packet_data :: "state \<Rightarrow> packet \<Rightarrow> ip_layer \<Rightarrow> string \<Rightarrow> row" where
  "packet_data s p l packet_time =
     \<lparr>row_no = length (packets s), row_time = packet_time, row_src = src l, row_dst = dst l,
      row_proto = proto_name (proto l), row_length = pkt_len p, row_info = pkt_summary p,
      row_tag = (if length (packet_tree s) mod 2 = 0 then ''evenrow'' else ''oddrow'')\<rparr>"

text \<open>
  \<^verbatim>\<open>add_packet_to_tree\<close> renders the time first, then reads \<^verbatim>\<open>packet['IP']\<close>, which
  raises when the packet has no IP layer; either exception leaves the state as it is.
\<close>

definition add_packet_to_tree :: "clock \<Rightarrow> state \<Rightarrow> packet \<Rightarrow> error + state" where
  "add_packet_to_tree clk s p =
     (case clk (pkt_time p) of
        Inl e \<Rightarrow> Inl e
      | Inr packet_time \<Rightarrow>
          (case ip p of
             None \<Rightarrow> Inl IndexError
           | Some l \<Rightarrow>
               Inr (s\<lparr>packet_tree := packet_tree s @ [packet_data s p l packet_time]\<rparr>)))"

definition report :: "error \<Rightarrow> state \<Rightarrow> state" where
  "report e s = s\<lparr>callback_errors := callback_errors s @ [e]\<rparr>"

section \<open>The conversation list and the network map\<close>

text \<open>
  \<^verbatim>\<open>sorted(xs, key=f, reverse=True)\<close>: CPython reverses the list, sorts it stably in
  ascending order and reverses the result, which keeps elements with equal keys in
  their original order.
\<close>

definition sorted_reverse :: "('a \<Rightarrow> nat) \<Rightarrow> 'a list \<Rightarrow> 'a list" where
  "sorted_reverse f xs = rev (sort_key f (rev xs))"

definition update_conversations_list :: "state \<Rightarrow> state" where
  "update_conversations_list s =
     s\<lparr>conv_scroll_frame :=
         map (\<lambda>item. (fst item, conv_count (snd item)))
           (sorted_reverse (\<lambda>item. conv_count (snd item)) (conversations s))\<rparr>"

definition update_network_map :: "state \<Rightarrow> state" where
  "update_network_map s =
     s\<lparr>canvas := (case selected_conversation s of
                    Some k \<Rightarrow> add_edge empty_graph (fst k) (snd k)
                  | None \<Rightarrow> graph s)\<rparr>"

section \<open>Ingestion\<close>

text \<open>
  \<^verbatim>\<open>_process_packet\<close>. When \<^verbatim>\<open>add_packet_to_tree\<close> raises, the packet is already in the
  store and in the log, \<^verbatim>\<open>update_conversations_list\<close> is not reached and the exception
  leaves the callback.
\<close>

definition process_packet :: "clock \<Rightarrow> state \<Rightarrow> packet \<Rightarrow> state" where
  "process_packet clk s p =
     (case ip p of
        None \<Rightarrow> s
      | Some l \<Rightarrow>
          let k = conversation_key (src l) (dst l);
              c1 = modify (\<lambda>c. c\<lparr>conv_count := conv_count c + 1\<rparr>) k (touch k (conversations s));
              c2 = modify (\<lambda>c. c\<lparr>conv_packets := conv_packets c @ [p]\<rparr>) k (touch k c1);
              s1 = s\<lparr>conversations := c2, packets := packets s @ [p]\<rparr>
          in if selected_conversation s1 = None \<or> selected_conversation s1 = Some k
             then (case add_packet_to_tree clk s1 p of
                     Inl e \<Rightarrow> report e s1
                   | Inr s2 \<Rightarrow> update_conversations_list s2)
             else update_conversations_list s1)"

definition packet_callback :: "state \<Rightarrow> packet \<Rightarrow> state" where
  "packet_callback s p =
     (case ip p of
        None \<Rightarrow> s
      | Some l \<Rightarrow> s\<lparr>graph := add_edge (graph s) (src l) (dst l),
                    after_queue := after_queue s @ [p]\<rparr>)"

text \<open>
  The event loop runs the queued \<^verbatim>\<open>_process_packet\<close> calls one at a time, in the order
  they were queued; between two of them any other handler may run.
\<close>

definition process_next :: "clock \<Rightarrow> state \<Rightarrow> state" where
  "process_next clk s =
     (case after_queue s of
        [] \<Rightarrow> s
      | p # queue \<Rightarrow> process_packet clk (s\<lparr>after_queue := queue\<rparr>) p)"

section \<open>Selection, clearing, capture sessions\<close>

text \<open>
  \<^verbatim>\<open>get_ip_info\<close> writes the waiting text into the box and leaves the lookup to a worker
  thread, whose result (\<^verbatim>\<open>fetch_ip_info\<close> below) replaces the text later.
\<close>

definition get_ip_info :: "string \<Rightarrow> string \<Rightarrow> string" where
  "get_ip_info addr shown =
     (if addr = [] \<or> addr = ''N/A'' then shown else ''Looking up '' @ addr @ ''...'')"

text \<open>
  The loop of \<^verbatim>\<open>select_conversation\<close> over the stored packets stops at the first packet
  on which \<^verbatim>\<open>add_packet_to_tree\<close> raises: the rows made so far stay, the network map is
  not redrawn and the exception leaves the callback.
\<close>

fun redisplay :: "clock \<Rightarrow> state \<Rightarrow> packet list \<Rightarrow> error option \<times> state" where
  "redisplay clk s [] = (None, s)"
| "redisplay clk s (p # ps) =
     (case add_packet_to_tree clk s p of
        Inl e \<Rightarrow> (Some e, s)
      | Inr s' \<Rightarrow> redisplay clk s' ps)"

definition select_conversation :: "clock \<Rightarrow> state \<Rightarrow> flow_key \<Rightarrow> state" where
  "select_conversation clk s k =
     (let s1 = s\<lparr>selected_conversation := Some k,
                 source_ip_textbox := get_ip_info (fst k) (source_ip_textbox s),
                 dest_ip_textbox := get_ip_info (snd k) (dest_ip_textbox s),
                 packet_tree := [],
                 conversations := touch k (conversations s)\<rparr>
      in case redisplay clk s1 (conv_packets (lookup (conversations s1) k)) of
           (Some e, s2) \<Rightarrow> report e s2
         | (None, s2) \<Rightarrow> update_network_map s2)"

text \<open>A conversation is selected by its button, which exists only for a listed key.\<close>

definition click_conversation :: "clock \<Rightarrow> state \<Rightarrow> flow_key \<Rightarrow> state" where
  "click_conversation clk s k =
     (if k \<in> set (map fst (conv_scroll_frame s)) then select_conversation clk s k else s)"

definition clear_data :: "state \<Rightarrow> state" where
  "clear_data s =
     update_network_map (update_conversations_list
       (s\<lparr>packets := [], conversations := [], selected_conversation := None,
          graph := empty_graph, packet_tree := [],
          source_ip_textbox := [], dest_ip_textbox := []\<rparr>))"

text \<open>
  \<^verbatim>\<open>start_sniffing\<close> clears the graph for the new session and starts the capture thread,
  whose packets arrive as calls of \<^verbatim>\<open>packet_callback\<close>; the store, the packet log and
  the pending calls are kept. The enabling and disabling of the buttons is not part of
  the state.
\<close>

definition start_sniffing :: "state \<Rightarrow> state" where
  "start_sniffing s = s\<lparr>is_sniffing := True, graph := empty_graph\<rparr>"

definition stop_sniffing :: "state \<Rightarrow> state" where
  "stop_sniffing s = update_network_map (s\<lparr>is_sniffing := False\<rparr>)"

text \<open>
  What the file dialog and \<^verbatim>\<open>rdpcap\<close> hand to \<^verbatim>\<open>upload_pcap\<close>: no path, a file that
  \<^verbatim>\<open>rdpcap\<close> fails on (the exception is caught and printed), or the packets read.
\<close>

datatype pcap_file = NoFileChosen | Unreadable | Capture "packet list"

definition upload_pcap :: "state \<Rightarrow> pcap_file \<Rightarrow> state" where
  "upload_pcap s f =
     (case f of
        NoFileChosen \<Rightarrow> s
      | Unreadable \<Rightarrow> clear_data s
      | Capture ps \<Rightarrow> update_network_map (foldl packet_callback (clear_data s) ps))"





section \<open>Runs of the application\<close>

text \<open>
  What can happen to the application, one step at a time: the capture thread calls
  \<^verbatim>\<open>packet_callback\<close>, which adds the edge at once and hands \<^verbatim>\<open>_process_packet\<close> to the
  event loop; the event loop runs the oldest pending \<^verbatim>\<open>_process_packet\<close>; a button is
  pressed. Nothing cancels a pending call, and every interleaving is a run.
\<close>

datatype event =
    Callback packet
  | ProcessNext
  | StartSniffing
  | StopSniffing
  | ClearData
  | ClickConversation flow_key
  | UploadPcap pcap_file

fun step :: "clock \<Rightarrow> state \<Rightarrow> event \<Rightarrow> state" where
  "step clk s (Callback p) = packet_callback s p"
| "step clk s ProcessNext = process_next clk s"
| "step clk s StartSniffing = start_sniffing s"
| "step clk s StopSniffing = stop_sniffing s"
| "step clk s ClearData = clear_data s"
| "step clk s (ClickConversation k) = click_conversation clk s k"
| "step clk s (UploadPcap f) = upload_pcap s f"

definition run :: "clock \<Rightarrow> state \<Rightarrow> event list \<Rightarrow> state" where
  "run clk s es = foldl (step clk) s es"

section \<open>The address lookup\<close>

text \<open>
  \<^verbatim>\<open>requests.get(...)\<close>, \<^verbatim>\<open>raise_for_status()\<close> and \<^verbatim>\<open>response.json()\<close> are the network:
  a function from the URL to either a \<^verbatim>\<open>RequestException\<close> or the decoded JSON object.
\<close>

datatype http_result = RequestException | Json "(string \<times> string) list"

definition startswith :: "string \<Rightarrow> string list \<Rightarrow> bool" where
  "startswith s prefixes = list_ex (\<lambda>p. take (length p) s = p) prefixes"

definition json_get :: "(string \<times> string) list \<Rightarrow> string \<Rightarrow> string \<Rightarrow> string" where
  "json_get d k dflt = (case map_of d k of None \<Rightarrow> dflt | Some v \<Rightarrow> v)"

text \<open>
  \<^verbatim>\<open>_fetch_ip_info\<close> returns the text put into the box, or the \<^verbatim>\<open>KeyError\<close> of
  \<^verbatim>\<open>data['status']\<close> that ends the worker thread, together with the URLs requested.
\<close>

definition fetch_ip_info :: "(string \<Rightarrow> http_result) \<Rightarrow> string \<Rightarrow> (error + string) \<times> string list" where
  "fetch_ip_info net addr =
     (if startswith addr [''10.'', ''192.168.'', ''172.16.'', ''127.0.0.1'']
      then (Inr (''IP: '' @ addr @ [CHR 0x0A] @ ''Status: Private/Local Address''), [])
      else let url = ''http://ip-api.com/json/'' @ addr in
        (case net url of
           RequestException \<Rightarrow>
             (Inr (''IP: '' @ addr @ [CHR 0x0A] @ ''Status: Error'' @ [CHR 0x0A]
                   @ ''Reason: API request failed.''), [url])
         | Json d \<Rightarrow>
             (case map_of d ''status'' of
                None \<Rightarrow> (Inl KeyError, [url])
              | Some st \<Rightarrow>
                  if st = ''success''
                  then (Inr (''IP: '' @ json_get d ''query'' ''N/A'' @ [CHR 0x0A]
                          @ ''Country: '' @ json_get d ''country'' ''N/A'' @ [CHR 0x0A]
                          @ ''City: '' @ json_get d ''city'' ''N/A'' @ [CHR 0x0A]
                          @ ''ISP: '' @ json_get d ''isp'' ''N/A'' @ [CHR 0x0A]
                          @ ''Org: '' @ json_get d ''org'' ''N/A''), [url])
                  else (Inr (''IP: '' @ addr @ [CHR 0x0A] @ ''Status: Failed'' @ [CHR 0x0A]
                          @ ''Reason: '' @ json_get d ''message'' ''Unknown''), [url]))))"

section \<open>The private and reserved ranges of the specification\<close>

text \<open>
  The ranges that the specification names for the lookup, on the dotted-quad text of an
  address: 10.0.0.0/8, 172.16.0.0/12, 192.168.0.0/16 and the loopback range 127.0.0.0/8.
\<close>

fun split_on :: "char \<Rightarrow> string \<Rightarrow> string list" where
  "split_on c [] = [[]]"
| "split_on c (x # xs) =
     (if x = c then [] # split_on c xs
      else (case split_on c xs of [] \<Rightarrow> [[x]] | w # ws \<Rightarrow> (x # w) # ws))"

definition is_digit :: "char \<Rightarrow> bool" where
  "is_digit c = (48 \<le> (of_char c :: nat) \<and> (of_char c :: nat) \<le> 57)"

definition parse_nat :: "string \<Rightarrow> nat option" where
  "parse_nat w =
     (if w \<noteq> [] \<and> list_all is_digit w
      then Some (foldl (\<lambda>n c. 10 * n + (of_char c - 48)) 0 w)
      else None)"

definition the_octets :: "string \<Rightarrow> nat list option" where
  "the_octets addr =
     (let ws = map parse_nat (split_on CHR ''.'' addr)
      in if length ws = 4 \<and> list_all (\<lambda>w. case w of None \<Rightarrow> False | Some n \<Rightarrow> n < 256) ws
         then Some (map the ws) else None)"

definition in_private_range :: "string \<Rightarrow> bool" where
  "in_private_range addr =
     (case the_octets addr of
        Some [a, b, c, d] \<Rightarrow>
          a = 10 \<or> (a = 172 \<and> 16 \<le> b \<and> b \<le> 31) \<or> (a = 192 \<and> b = 168) \<or> a = 127
      | _ \<Rightarrow> False)"

section \<open>An example host\<close>

text \<open>
  A host in the UTC zone that, like CPython 3.10 or later with a 64-bit \<^verbatim>\<open>time_t\<close>,
  refuses a \<^verbatim>\<open>Decimal\<close> with \<^verbatim>\<open>TypeError\<close>, a timestamp below \<open>-2^63\<close> or from \<open>2^63\<close> on
  with \<^verbatim>\<open>OverflowError\<close> and a timestamp whose year does not fit a C \<^verbatim>\<open>int\<close> with
  \<^verbatim>\<open>OSError\<close>.
\<close>

definition two_digits :: "nat \<Rightarrow> string" where
  "two_digits n = [digit (n div 10 mod 10), digit (n mod 10)]"

definition hms :: "int \<Rightarrow> string" where
  "hms n = two_digits (nat (n div 3600 mod 24)) @ '':'' @ two_digits (nat (n div 60 mod 60))
             @ '':'' @ two_digits (nat (n mod 60))"

definition utc_clock :: clock where
  "utc_clock t =
     (case t of
        EDecimal n \<Rightarrow> Inl TypeError
      | FloatTime n \<Rightarrow>
          if n < - 9223372036854775808 \<or> 9223372036854775808 \<le> n then Inl OverflowError
          else if n < - 67768040609740800 \<or> 67768036191676799 < n then Inl OSError
          else Inr (hms n))"


section \<open>Notions used in the statements and proofs\<close>

text \<open>What the two store updates of one \<^verbatim>\<open>_process_packet\<close> call amount to.\<close>

definition record_packet :: "packet \<Rightarrow> conversation \<Rightarrow> conversation" where
  "record_packet p c = c\<lparr>conv_count := conv_count c + 1, conv_packets := conv_packets c @ [p]\<rparr>"

text \<open>
  The state of \<^verbatim>\<open>_process_packet\<close> after the store and the log were updated, and whether
  the packet is then handed to \<^verbatim>\<open>add_packet_to_tree\<close>.
\<close>

definition stored :: "state \<Rightarrow> packet \<Rightarrow> ip_layer \<Rightarrow> state" where
  "stored s p l =
     s\<lparr>conversations := modify (record_packet p) (conversation_key (src l) (dst l))
                           (touch (conversation_key (src l) (dst l)) (conversations s)),
       packets := packets s @ [p]\<rparr>"

definition surfaced :: "state \<Rightarrow> packet \<Rightarrow> bool" where
  "surfaced s p = (selected_conversation s = None \<or> selected_conversation s = packet_key p)"

text \<open>The state of \<^verbatim>\<open>select_conversation\<close> when its loop over the stored packets starts.\<close>

definition selecting :: "state \<Rightarrow> flow_key \<Rightarrow> state" where
  "selecting s k = s\<lparr>selected_conversation := Some k,
                 source_ip_textbox := get_ip_info (fst k) (source_ip_textbox s),
                 dest_ip_textbox := get_ip_info (snd k) (dest_ip_textbox s),
                 packet_tree := [],
                 conversations := touch k (conversations s)\<rparr>"

definition conv_all :: "(conversation \<Rightarrow> bool) \<Rightarrow> store \<Rightarrow> bool" where
  "conv_all Q cs = list_all (\<lambda>item. Q (snd item)) cs"

text \<open>The buttons that \<^verbatim>\<open>update_conversations_list\<close> builds from a store.\<close>

definition buttons :: "store \<Rightarrow> (flow_key \<times> nat) list" where
  "buttons cs = map (\<lambda>item. (fst item, conv_count (snd item)))
                  (sorted_reverse (\<lambda>item. conv_count (snd item)) cs)"


definition store_keys :: "state \<Rightarrow> flow_key set" where
  "store_keys s = fst ` set (conversations s)"


definition frame_sub :: "state \<Rightarrow> bool" where
  "frame_sub s = (set (map fst (conv_scroll_frame s)) \<subseteq> store_keys s)"







text \<open>
  First-seen order: the elements of a list in the order of their first occurrences.
  \<open>flow_log\<close> is the flow key of every logged packet, in the order of the log.
\<close>

fun first_seen :: "'a list \<Rightarrow> 'a list" where
  "first_seen [] = []"
| "first_seen (x # xs) = x # removeAll x (first_seen xs)"

definition flow_log :: "state \<Rightarrow> flow_key list" where
  "flow_log s = List.map_filter packet_key (packets s)"

definition order_ok :: "state \<Rightarrow> bool" where
  "order_ok s = (map fst (conversations s) = first_seen (flow_log s))"


text \<open>
  The packets of the specification's scenarios: hosts A, B and C, a TCP packet in each
  direction between A and B, a UDP packet from A to C, and a frame without an IP layer,
  all as a live capture delivers them; and the packet from A to B as \<^verbatim>\<open>rdpcap\<close> reads it
  from a file.
\<close>

definition host_a :: string where
  "host_a = ''192.168.1.5''"

definition host_b :: string where
  "host_b = ''192.168.1.9''"

definition host_c :: string where
  "host_c = ''8.8.8.8''"

definition pkt_ab :: packet where
  "pkt_ab = \<lparr>ip = Some \<lparr>src = host_a, dst = host_b, proto = 6\<rparr>,
             pkt_time = FloatTime 1000, pkt_len = 60, pkt_summary = ''A > B tcp''\<rparr>"

definition pkt_ba :: packet where
  "pkt_ba = \<lparr>ip = Some \<lparr>src = host_b, dst = host_a, proto = 6\<rparr>,
             pkt_time = FloatTime 1001, pkt_len = 60, pkt_summary = ''B > A tcp''\<rparr>"

definition pkt_ac :: packet where
  "pkt_ac = \<lparr>ip = Some \<lparr>src = host_a, dst = host_c, proto = 17\<rparr>,
             pkt_time = FloatTime 1002, pkt_len = 40, pkt_summary = ''A > C udp''\<rparr>"

definition pkt_arp :: packet where
  "pkt_arp = \<lparr>ip = None, pkt_time = FloatTime 1003, pkt_len = 42,
              pkt_summary = ''ARP who has''\<rparr>"

definition pkt_file_ab :: packet where
  "pkt_file_ab = \<lparr>ip = Some \<lparr>src = host_a, dst = host_b, proto = 6\<rparr>,
             pkt_time = EDecimal 1000, pkt_len = 60, pkt_summary = ''A > B tcp''\<rparr>"

section \<open>Lemmas about the store, the handlers and runs\<close>

lemma map_fst_modify: "map fst (modify f k cs) = map fst cs"
  by (induction f k cs rule: modify.induct) auto

lemma map_fst_touch:
  "map fst (touch k cs) = (if k \<in> set (map fst cs) then map fst cs else map fst cs @ [k])"
  by (simp add: touch_def)

lemma touch_present: "k \<in> set (map fst cs) \<Longrightarrow> touch k cs = cs"
  by (simp add: touch_def)

lemma touch_modify_touch: "touch k (modify f k (touch k cs)) = modify f k (touch k cs)"
  by (rule touch_present) (simp add: map_fst_modify map_fst_touch)

lemma modify_modify: "modify g k (modify f k cs) = modify (g \<circ> f) k cs"
  by (induction f k cs rule: modify.induct) auto

lemma map_of_modify:
  "map_of (modify f k cs) k' = (if k' = k then map_option f (map_of cs k) else map_of cs k')"
  by (induction f k cs rule: modify.induct) auto

lemma map_of_touch:
  "map_of (touch k cs) k' =
     (if k' = k \<and> map_of cs k = None then Some default_conversation else map_of cs k')"
proof (cases "k \<in> set (map fst cs)")
  case True
  then have "map_of cs k \<noteq> None" by (simp add: map_of_eq_None_iff)
  with True show ?thesis by (simp add: touch_def)
next
  case False
  then have "map_of cs k = None" by (simp add: map_of_eq_None_iff)
  with False show ?thesis
    by (cases "map_of cs k'") (auto simp: touch_def map_add_def)
qed


lemma lookup_modify_touch:
  "lookup (modify f k (touch k cs)) k' = (if k' = k then f (lookup cs k) else lookup cs k')"
  by (auto simp: lookup_def map_of_modify map_of_touch split: option.splits)

text \<open>What one \<^verbatim>\<open>_process_packet\<close> call does to the store.\<close>

lemma store_after_process:
  "modify (\<lambda>c. c\<lparr>conv_packets := conv_packets c @ [p]\<rparr>) k
     (touch k (modify (\<lambda>c. c\<lparr>conv_count := Suc (conv_count c)\<rparr>) k (touch k cs)))
   = modify (record_packet p) k (touch k cs)"
  by (simp add: touch_modify_touch modify_modify record_packet_def [abs_def] comp_def)

lemma process_packet_no_ip: "ip p = None \<Longrightarrow> process_packet clk s p = s"
  by (simp add: process_packet_def)

lemma process_packet_ip:
  assumes "ip p = Some l"
  shows "process_packet clk s p =
     (if surfaced s p
      then (case clk (pkt_time p) of
              Inl e \<Rightarrow> report e (stored s p l)
            | Inr t \<Rightarrow>
                update_conversations_list
                  ((stored s p l)\<lparr>packet_tree := packet_tree s @ [packet_data (stored s p l) p l t]\<rparr>))
      else update_conversations_list (stored s p l))"
  using assms
  by (simp add: process_packet_def Let_def store_after_process add_packet_to_tree_def
      stored_def surfaced_def packet_key_def split: sum.splits)

subsection \<open>Runs\<close>

lemma run_Nil: "run clk s [] = s"
  by (simp add: run_def)

lemma run_snoc: "run clk s (es @ [e]) = step clk (run clk s es) e"
  by (simp add: run_def)

lemma run_append: "run clk s (es @ es') = run clk (run clk s es) es'"
  by (simp add: run_def)

lemma run_Cons: "run clk s (e # es) = run clk (step clk s e) es"
  by (simp add: run_def)

lemma run_invariant:
  assumes "P s" and "\<And>t e. P t \<Longrightarrow> P (step clk t e)"
  shows "P (run clk s es)"
  using assms by (induction es rule: rev_induct) (simp_all add: run_Nil run_snoc)


subsection \<open>What a handler does to each field\<close>

lemma update_conversations_list_fields:
  "packets (update_conversations_list s) = packets s"
  "conversations (update_conversations_list s) = conversations s"
  "selected_conversation (update_conversations_list s) = selected_conversation s"
  "graph (update_conversations_list s) = graph s"
  "packet_tree (update_conversations_list s) = packet_tree s"
  "after_queue (update_conversations_list s) = after_queue s"
  "callback_errors (update_conversations_list s) = callback_errors s"
  "conv_scroll_frame (update_conversations_list s) = buttons (conversations s)"
  by (simp_all add: update_conversations_list_def buttons_def)

lemma update_network_map_fields:
  "packets (update_network_map s) = packets s"
  "conversations (update_network_map s) = conversations s"
  "selected_conversation (update_network_map s) = selected_conversation s"
  "graph (update_network_map s) = graph s"
  "packet_tree (update_network_map s) = packet_tree s"
  "conv_scroll_frame (update_network_map s) = conv_scroll_frame s"
  "after_queue (update_network_map s) = after_queue s"
  "callback_errors (update_network_map s) = callback_errors s"
  by (simp_all add: update_network_map_def)

lemma report_fields:
  "packets (report e s) = packets s"
  "conversations (report e s) = conversations s"
  "selected_conversation (report e s) = selected_conversation s"
  "graph (report e s) = graph s"
  "packet_tree (report e s) = packet_tree s"
  "conv_scroll_frame (report e s) = conv_scroll_frame s"
  "after_queue (report e s) = after_queue s"
  by (simp_all add: report_def)

lemma stored_fields:
  "packets (stored s p l) = packets s @ [p]"
  "conversations (stored s p l) = modify (record_packet p) (conversation_key (src l) (dst l))
                           (touch (conversation_key (src l) (dst l)) (conversations s))"
  "selected_conversation (stored s p l) = selected_conversation s"
  "graph (stored s p l) = graph s"
  "packet_tree (stored s p l) = packet_tree s"
  "conv_scroll_frame (stored s p l) = conv_scroll_frame s"
  "after_queue (stored s p l) = after_queue s"
  by (simp_all add: stored_def)

lemma process_packet_fields:
  "selected_conversation (process_packet clk s p) = selected_conversation s"
  "graph (process_packet clk s p) = graph s"
  "after_queue (process_packet clk s p) = after_queue s"
  "packets (process_packet clk s p) = packets s @ filter has_ip [p]"
  by (cases "ip p"; cases "clk (pkt_time p)";
      simp add: process_packet_no_ip process_packet_ip update_conversations_list_fields
        report_fields stored_fields has_ip_def)+

lemma process_packet_store:
  "ip p = Some l \<Longrightarrow>
     conversations (process_packet clk s p)
       = modify (record_packet p) (conversation_key (src l) (dst l))
           (touch (conversation_key (src l) (dst l)) (conversations s))"
  by (cases "clk (pkt_time p)")
     (simp_all add: process_packet_ip update_conversations_list_fields report_fields stored_fields)

lemma process_packet_tree:
  "ip p = Some l \<Longrightarrow>
     packet_tree (process_packet clk s p)
       = (if surfaced s p
          then (case clk (pkt_time p) of
                  Inl e \<Rightarrow> packet_tree s
                | Inr t \<Rightarrow> packet_tree s @ [(packet_data s p l t)\<lparr>row_no := Suc (length (packets s))\<rparr>])
          else packet_tree s)"
  by (cases "clk (pkt_time p)")
     (simp_all add: process_packet_ip update_conversations_list_fields report_fields stored_fields
        packet_data_def)

lemma process_packet_frame:
  "ip p = Some l \<Longrightarrow>
     conv_scroll_frame (process_packet clk s p)
       = (if surfaced s p \<and> \<not> renders clk p then conv_scroll_frame s
          else buttons (conversations (process_packet clk s p)))"
  by (cases "clk (pkt_time p)")
     (simp_all add: process_packet_ip update_conversations_list_fields report_fields stored_fields
        renders_def)

lemma process_next_idle: "after_queue s = [] \<Longrightarrow> process_next clk s = s"
  by (simp add: process_next_def)

lemma process_next_head:
  "after_queue s = p # q \<Longrightarrow> process_next clk s = process_packet clk (s\<lparr>after_queue := q\<rparr>) p"
  by (simp add: process_next_def)


lemma redisplay_frame: "\<exists>e T. redisplay clk s ps = (e, s\<lparr>packet_tree := T\<rparr>)"
proof (induction ps arbitrary: s)
  case Nil
  show ?case
    by (rule exI [of _ None], rule exI [of _ "packet_tree s"]) simp
next
  case (Cons p ps)
  show ?case
  proof (cases "add_packet_to_tree clk s p")
    case (Inl e)
    show ?thesis
      by (rule exI [of _ "Some e"], rule exI [of _ "packet_tree s"]) (simp add: Inl)
  next
    case (Inr s')
    then obtain T' where s': "s' = s\<lparr>packet_tree := T'\<rparr>"
      by (auto simp: add_packet_to_tree_def split: sum.splits option.splits)
    obtain e T where "redisplay clk s' ps = (e, s'\<lparr>packet_tree := T\<rparr>)"
      using Cons.IH by blast
    with Inr s' show ?thesis by auto
  qed
qed

lemma select_conversation_cases:
  "\<exists>T. select_conversation clk s k = update_network_map ((selecting s k)\<lparr>packet_tree := T\<rparr>)
     \<or> (\<exists>e. select_conversation clk s k = report e ((selecting s k)\<lparr>packet_tree := T\<rparr>))"
proof -
  obtain e T where r: "redisplay clk (selecting s k) (conv_packets (lookup (conversations (selecting s k)) k))
      = (e, (selecting s k)\<lparr>packet_tree := T\<rparr>)"
    using redisplay_frame by blast
  have "select_conversation clk s k =
      (case redisplay clk (selecting s k) (conv_packets (lookup (conversations (selecting s k)) k)) of
           (Some e, s2) \<Rightarrow> report e s2
         | (None, s2) \<Rightarrow> update_network_map s2)"
    by (simp add: select_conversation_def selecting_def Let_def)
  with r show ?thesis
    by (cases e) auto
qed

lemma select_conversation_fields:
  "packets (select_conversation clk s k) = packets s"
  "conversations (select_conversation clk s k) = touch k (conversations s)"
  "selected_conversation (select_conversation clk s k) = Some k"
  "graph (select_conversation clk s k) = graph s"
  "conv_scroll_frame (select_conversation clk s k) = conv_scroll_frame s"
  "after_queue (select_conversation clk s k) = after_queue s"
  using select_conversation_cases [of clk s k]
  by (auto simp: update_network_map_def report_def selecting_def)

lemma packet_callback_fields:
  "packets (packet_callback s p) = packets s"
  "conversations (packet_callback s p) = conversations s"
  "selected_conversation (packet_callback s p) = selected_conversation s"
  "packet_tree (packet_callback s p) = packet_tree s"
  "conv_scroll_frame (packet_callback s p) = conv_scroll_frame s"
  "after_queue (packet_callback s p) = after_queue s @ filter has_ip [p]"
  by (simp_all add: packet_callback_def has_ip_def split: option.splits)

lemma foldl_packet_callback_fields:
  "packets (foldl packet_callback s ps) = packets s"
  "conversations (foldl packet_callback s ps) = conversations s"
  "selected_conversation (foldl packet_callback s ps) = selected_conversation s"
  "packet_tree (foldl packet_callback s ps) = packet_tree s"
  "conv_scroll_frame (foldl packet_callback s ps) = conv_scroll_frame s"
  "after_queue (foldl packet_callback s ps) = after_queue s @ filter has_ip ps"
  by (induction ps arbitrary: s; simp add: packet_callback_fields)+

lemma clear_data_fields:
  "packets (clear_data s) = []"
  "conversations (clear_data s) = []"
  "selected_conversation (clear_data s) = None"
  "graph (clear_data s) = empty_graph"
  "packet_tree (clear_data s) = []"
  "conv_scroll_frame (clear_data s) = []"
  "after_queue (clear_data s) = after_queue s"
  by (simp_all add: clear_data_def update_network_map_def update_conversations_list_def
      sorted_reverse_def)

lemma upload_pcap_fields:
  "f \<noteq> NoFileChosen \<Longrightarrow> packets (upload_pcap s f) = []"
  "f \<noteq> NoFileChosen \<Longrightarrow> conversations (upload_pcap s f) = []"
  "f \<noteq> NoFileChosen \<Longrightarrow> selected_conversation (upload_pcap s f) = None"
  "f \<noteq> NoFileChosen \<Longrightarrow> packet_tree (upload_pcap s f) = []"
  "f \<noteq> NoFileChosen \<Longrightarrow> conv_scroll_frame (upload_pcap s f) = []"
  by (cases f; simp add: upload_pcap_def update_network_map_fields
      foldl_packet_callback_fields clear_data_fields)+


lemma click_conversation_fields:
  "packets (click_conversation clk s k) = packets s"
  "graph (click_conversation clk s k) = graph s"
  "after_queue (click_conversation clk s k) = after_queue s"
  "conv_scroll_frame (click_conversation clk s k) = conv_scroll_frame s"
  by (simp_all add: click_conversation_def select_conversation_fields)


subsection \<open>Only packets with an IP layer are queued\<close>



subsection \<open>Properties of every stored conversation\<close>

lemma conv_all_touch: "Q default_conversation \<Longrightarrow> conv_all Q cs \<Longrightarrow> conv_all Q (touch k cs)"
  by (simp add: conv_all_def touch_def)

lemma conv_all_modify:
  "(\<And>c. Q c \<Longrightarrow> Q (f c)) \<Longrightarrow> conv_all Q cs \<Longrightarrow> conv_all Q (modify f k cs)"
  by (induction f k cs rule: modify.induct) (auto simp: conv_all_def)

lemma conv_all_process_packet:
  assumes "Q default_conversation" and "\<And>c. has_ip p \<Longrightarrow> Q c \<Longrightarrow> Q (record_packet p c)"
    and "conv_all Q (conversations s)"
  shows "conv_all Q (conversations (process_packet clk s p))"
proof (cases "ip p")
  case None
  with assms(3) show ?thesis by (simp add: process_packet_no_ip)
next
  case (Some l)
  then have "has_ip p" by (simp add: has_ip_def)
  with assms show ?thesis
    by (simp add: process_packet_store [OF Some] conv_all_modify conv_all_touch)
qed

lemma conv_all_step:
  assumes "Q default_conversation" and "\<And>p c. has_ip p \<Longrightarrow> Q c \<Longrightarrow> Q (record_packet p c)"
    and "conv_all Q (conversations s)"
  shows "conv_all Q (conversations (step clk s e))"
proof (cases e)
  case ProcessNext
  show ?thesis
  proof (cases "after_queue s")
    case Nil
    with ProcessNext assms(3) show ?thesis by (simp add: process_next_idle)
  next
    case (Cons p q)
    have "conv_all Q (conversations (process_packet clk (s\<lparr>after_queue := q\<rparr>) p))"
      by (rule conv_all_process_packet) (simp_all add: assms)
    with ProcessNext Cons show ?thesis by (simp add: process_next_head)
  qed
next
  case (ClickConversation k)
  with assms show ?thesis
    by (simp add: click_conversation_def select_conversation_fields conv_all_touch)
next
  case (UploadPcap f)
  with assms show ?thesis
    by (cases "f = NoFileChosen")
       (simp_all add: upload_pcap_fields, simp_all add: upload_pcap_def conv_all_def)
qed (use assms in \<open>simp_all add: packet_callback_fields start_sniffing_def stop_sniffing_def
      update_network_map_fields clear_data_fields\<close>, simp add: conv_all_def)

lemma conv_all_run:
  assumes "Q default_conversation" and "\<And>p c. has_ip p \<Longrightarrow> Q c \<Longrightarrow> Q (record_packet p c)"
  shows "conv_all Q (conversations (run clk init es))"
  by (rule run_invariant)
     (simp_all add: init_def conv_all_def conv_all_step [unfolded conv_all_def] assms)



subsection \<open>The keys of the store\<close>



lemma keys_modify_touch: "fst ` set (modify f k (touch k cs)) = insert k (fst ` set cs)"
proof -
  have "set (map fst (modify f k (touch k cs))) = set (map fst (touch k cs))"
    by (simp only: map_fst_modify)
  also have "\<dots> = insert k (set (map fst cs))"
    by (auto simp: touch_def)
  finally show ?thesis by simp
qed

lemma store_keys_process_packet:
  "store_keys (process_packet clk s p) = store_keys s \<union> set_option (packet_key p)"
proof (cases "ip p")
  case None
  then show ?thesis by (simp add: process_packet_no_ip packet_key_def)
next
  case (Some l)
  then show ?thesis
    by (simp add: store_keys_def process_packet_store [OF Some] keys_modify_touch packet_key_def)
qed



subsection \<open>Every button belongs to a stored conversation\<close>

lemma set_sorted_reverse: "set (sorted_reverse f xs) = set xs"
  by (simp add: sorted_reverse_def)

lemma keys_buttons: "set (map fst (buttons cs)) = fst ` set cs"
  by (simp add: buttons_def comp_def set_sorted_reverse)

lemma frame_sub_process_packet:
  assumes "frame_sub s"
  shows "frame_sub (process_packet clk s p)"
proof (cases "ip p")
  case None
  with assms show ?thesis by (simp add: process_packet_no_ip)
next
  case (Some l)
  show ?thesis
  proof (cases "surfaced s p \<and> \<not> renders clk p")
    case True
    with assms show ?thesis
      unfolding frame_sub_def
      by (simp only: process_packet_frame [OF Some] store_keys_process_packet if_True) auto
  next
    case False
    then show ?thesis
      unfolding frame_sub_def
      by (simp only: process_packet_frame [OF Some] if_False keys_buttons store_keys_def)
  qed
qed

lemma frame_sub_queue: "frame_sub (s\<lparr>after_queue := q\<rparr>) = frame_sub s"
  by (simp add: frame_sub_def store_keys_def)

lemma click_conversation_store:
  assumes "frame_sub s"
  shows "conversations (click_conversation clk s k) = conversations s"
proof (cases "k \<in> set (map fst (conv_scroll_frame s))")
  case True
  with assms have "k \<in> set (map fst (conversations s))"
    by (auto simp: frame_sub_def store_keys_def)
  with True show ?thesis
    by (simp add: click_conversation_def select_conversation_fields touch_present)
next
  case False
  then show ?thesis by (simp add: click_conversation_def)
qed

lemma frame_sub_step: "frame_sub s \<Longrightarrow> frame_sub (step clk s e)"
proof (cases e)
  case ProcessNext
  assume a: "frame_sub s"
  show ?thesis
  proof (cases "after_queue s")
    case Nil
    with ProcessNext a show ?thesis by (simp add: process_next_idle)
  next
    case (Cons p q)
    with ProcessNext a show ?thesis
      by (simp add: process_next_head frame_sub_process_packet frame_sub_queue)
  qed
next
  case (ClickConversation k)
  assume a: "frame_sub s"
  from a have "store_keys (click_conversation clk s k) = store_keys s"
    by (simp add: store_keys_def click_conversation_store)
  with a ClickConversation show ?thesis
    by (simp add: frame_sub_def click_conversation_fields)
next
  case (UploadPcap f)
  assume "frame_sub s"
  with UploadPcap show ?thesis
    by (cases "f = NoFileChosen")
       (simp_all add: frame_sub_def upload_pcap_fields, simp add: upload_pcap_def)
qed (simp_all add: frame_sub_def store_keys_def packet_callback_fields start_sniffing_def
      stop_sniffing_def update_network_map_fields clear_data_fields)

lemma frame_sub_init: "frame_sub init"
  by (simp add: frame_sub_def init_def)


subsection \<open>Keys known to the application and edges of the graph\<close>













subsection \<open>The order of the conversation list\<close>

lemma set_first_seen: "set (first_seen xs) = set xs"
  by (induction xs) auto

lemma first_seen_snoc:
  "first_seen (xs @ [x]) = (if x \<in> set xs then first_seen xs else first_seen xs @ [x])"
  by (induction xs) (auto simp: set_first_seen)

lemma sorted_reverse_descending:
  "sorted_wrt (\<lambda>a b. f b \<le> f a) (sorted_reverse f xs)"
proof -
  have "sorted (map f (sort_key f (rev xs)))" by simp
  then have "sorted_wrt (\<lambda>a b. f a \<le> f b) (sort_key f (rev xs))"
    by (simp only: sorted_map)
  then show ?thesis
    by (simp add: sorted_reverse_def sorted_wrt_rev)
qed

lemma sorted_reverse_stable:
  "filter (\<lambda>x. f x = c) (sorted_reverse f xs) = filter (\<lambda>x. f x = c) xs"
proof -
  have "filter (\<lambda>x. f x = c) (sorted_reverse f xs)
      = rev (filter (\<lambda>x. f x = c) (sort_key f (rev xs)))"
    by (simp add: sorted_reverse_def rev_filter)
  also have "\<dots> = rev (filter (\<lambda>x. f x = c) (rev xs))"
    by (simp only: sort_key_stable)
  finally show ?thesis by (simp add: rev_filter)
qed

lemma buttons_descending: "sorted_wrt (\<lambda>a b. snd b \<le> snd a) (buttons cs)"
  using sorted_reverse_descending [of "\<lambda>item. conv_count (snd item)" cs]
  by (simp add: buttons_def sorted_wrt_map)

lemma buttons_stable:
  "filter (\<lambda>b. snd b = c) (buttons cs)
     = map (\<lambda>item. (fst item, conv_count (snd item)))
         (filter (\<lambda>item. conv_count (snd item) = c) cs)"
  using sorted_reverse_stable [of "\<lambda>item. conv_count (snd item)" c cs]
  by (simp add: buttons_def filter_map comp_def)

lemma map_filter_snoc:
  "List.map_filter f (xs @ [x]) = List.map_filter f xs @ (case f x of None \<Rightarrow> [] | Some y \<Rightarrow> [y])"
  by (cases "f x") (simp_all add: List.map_filter_def)

lemma order_ok_process_packet: "order_ok s \<Longrightarrow> order_ok (process_packet clk s p)"
proof (cases "ip p")
  case None
  assume "order_ok s"
  with None show ?thesis by (simp add: process_packet_no_ip)
next
  case (Some l)
  assume a: "order_ok s"
  have log: "flow_log (process_packet clk s p) = flow_log s @ [conversation_key (src l) (dst l)]"
    by (simp add: flow_log_def process_packet_fields has_ip_def Some map_filter_snoc
        packet_key_def)
  have "map fst (conversations (process_packet clk s p))
      = map fst (touch (conversation_key (src l) (dst l)) (conversations s))"
    by (simp add: process_packet_store [OF Some] map_fst_modify)
  also have "\<dots> = first_seen (flow_log s @ [conversation_key (src l) (dst l)])"
    using a set_first_seen [of "flow_log s"]
    by (simp only: order_ok_def map_fst_touch first_seen_snoc)
  finally show ?thesis by (simp add: order_ok_def log)
qed

lemma order_ok_queue: "order_ok (s\<lparr>after_queue := q\<rparr>) = order_ok s"
  by (simp add: order_ok_def flow_log_def)

lemma order_ok_step: "frame_sub s \<Longrightarrow> order_ok s \<Longrightarrow> order_ok (step clk s e)"
proof (cases e)
  case ProcessNext
  assume "frame_sub s" and a: "order_ok s"
  show ?thesis
  proof (cases "after_queue s")
    case Nil
    with ProcessNext a show ?thesis by (simp add: process_next_idle)
  next
    case (Cons p q)
    with ProcessNext a show ?thesis
      by (simp add: process_next_head order_ok_process_packet order_ok_queue)
  qed
next
  case (ClickConversation k)
  assume "frame_sub s" "order_ok s"
  with ClickConversation show ?thesis
    by (simp add: order_ok_def flow_log_def click_conversation_store click_conversation_fields)
next
  case (UploadPcap f)
  assume "frame_sub s" "order_ok s"
  with UploadPcap show ?thesis
    by (cases "f = NoFileChosen")
       (simp_all add: order_ok_def flow_log_def upload_pcap_fields List.map_filter_def,
        simp add: upload_pcap_def)
qed (simp_all add: order_ok_def flow_log_def packet_callback_fields start_sniffing_def
      stop_sniffing_def update_network_map_fields clear_data_fields List.map_filter_def)

lemma order_ok_run: "order_ok (run clk init es)"
proof -
  have "frame_sub (run clk init es) \<and> order_ok (run clk init es)"
  proof (rule run_invariant)
    show "frame_sub init \<and> order_ok init"
      by (simp add: frame_sub_init) (simp add: order_ok_def flow_log_def init_def List.map_filter_def)
  next
    fix t e
    assume "frame_sub t \<and> order_ok t"
    then show "frame_sub (step clk t e) \<and> order_ok (step clk t e)"
      by (simp add: frame_sub_step order_ok_step)
  qed
  then show ?thesis by simp
qed

subsection \<open>Row numbers\<close>










subsection \<open>Numbers between clears\<close>






subsection \<open>Re-displaying a conversation\<close>








section \<open>The graph and the store\<close>




section \<open>Storing and showing a packet\<close>

text \<open>
  What one \<^verbatim>\<open>_process_packet\<close> call does with an IP packet, on every host and in every
  state: the packet is appended to the log and to the packet list of its conversation,
  whose count goes up by one, and no other conversation and not the selection changes,
  whatever is selected; a row is appended exactly when no conversation or the packet's
  own is selected and the host renders the packet's time.
\<close>

lemma process_packet_effect:
  assumes "ip p = Some l"
  shows "packets (process_packet clk s p) = packets s @ [p]
     \<and> lookup (conversations (process_packet clk s p)) (conversation_key (src l) (dst l))
         = record_packet p (lookup (conversations s) (conversation_key (src l) (dst l)))
     \<and> (\<forall>k. k \<noteq> conversation_key (src l) (dst l) \<longrightarrow>
           lookup (conversations (process_packet clk s p)) k = lookup (conversations s) k)
     \<and> selected_conversation (process_packet clk s p) = selected_conversation s
     \<and> packet_tree (process_packet clk s p) =
         (if surfaced s p
          then (case clk (pkt_time p) of
                  Inl e \<Rightarrow> packet_tree s
                | Inr t \<Rightarrow> packet_tree s @ [(packet_data s p l t)\<lparr>row_no := Suc (length (packets s))\<rparr>])
          else packet_tree s)"
  using assms
  by (simp add: process_packet_fields process_packet_store [OF assms] process_packet_tree [OF assms]
      lookup_modify_touch has_ip_def)

text \<open>
  C2 fails on the code. The storing half holds, but a packet is not always shown when
  nothing or its own conversation is selected: \<^verbatim>\<open>add_packet_to_tree\<close> starts with
  \<^verbatim>\<open>time.localtime(packet.time)\<close>, and when that raises (a \<^verbatim>\<open>Decimal\<close> timestamp, as
  \<^verbatim>\<open>rdpcap\<close> gives it, on Python 3.10 or later; a timestamp out of the platform's range)
  the packet is in the store and in the log, no row is added, the conversation list
  is not rebuilt and the exception leaves the callback.
\<close>

theorem stored_but_not_shown:
  assumes "ip p = Some l" and "clk (pkt_time p) = Inl e" and "surfaced s p"
  shows "packets (process_packet clk s p) = packets s @ [p]
     \<and> conv_packets (lookup (conversations (process_packet clk s p))
           (conversation_key (src l) (dst l)))
         = conv_packets (lookup (conversations s) (conversation_key (src l) (dst l))) @ [p]
     \<and> conv_count (lookup (conversations (process_packet clk s p))
           (conversation_key (src l) (dst l)))
         = conv_count (lookup (conversations s) (conversation_key (src l) (dst l))) + 1
     \<and> packet_tree (process_packet clk s p) = packet_tree s
     \<and> conv_scroll_frame (process_packet clk s p) = conv_scroll_frame s
     \<and> callback_errors (process_packet clk s p) = callback_errors s @ [e]"
  using assms
  by (simp add: process_packet_ip [OF assms(1)] report_def stored_def lookup_modify_touch
      record_packet_def)

theorem stored_but_not_shown_witness:
  "ip pkt_file_ab = Some \<lparr>src = host_a, dst = host_b, proto = 6\<rparr>
   \<and> utc_clock (pkt_time pkt_file_ab) = Inl TypeError
   \<and> surfaced init pkt_file_ab
   \<and> packets (process_packet utc_clock init pkt_file_ab) = packets init @ [pkt_file_ab]
   \<and> packet_tree (process_packet utc_clock init pkt_file_ab) = packet_tree init
   \<and> callback_errors (process_packet utc_clock init pkt_file_ab) = callback_errors init @ [TypeError]
   \<and> packets (run utc_clock init [UploadPcap (Capture [pkt_file_ab]), ProcessNext]) = [pkt_file_ab]
   \<and> selected_conversation (run utc_clock init [UploadPcap (Capture [pkt_file_ab]), ProcessNext]) = None
   \<and> packet_tree (run utc_clock init [UploadPcap (Capture [pkt_file_ab]), ProcessNext]) = []
   \<and> conv_scroll_frame (run utc_clock init [UploadPcap (Capture [pkt_file_ab]), ProcessNext]) = []"
proof -
  have h1: "ip pkt_file_ab = Some \<lparr>src = host_a, dst = host_b, proto = 6\<rparr>"
    by (simp add: pkt_file_ab_def)
  have h2: "utc_clock (pkt_time pkt_file_ab) = Inl TypeError"
    by (simp add: pkt_file_ab_def utc_clock_def)
  have h3: "surfaced init pkt_file_ab"
    by (simp add: surfaced_def init_def)
  note t = stored_but_not_shown [of pkt_file_ab _ utc_clock TypeError init, OF h1 h2 h3]
  have "packets (run utc_clock init [UploadPcap (Capture [pkt_file_ab]), ProcessNext]) = [pkt_file_ab]"
    "selected_conversation (run utc_clock init [UploadPcap (Capture [pkt_file_ab]), ProcessNext]) = None"
    "packet_tree (run utc_clock init [UploadPcap (Capture [pkt_file_ab]), ProcessNext]) = []"
    "conv_scroll_frame (run utc_clock init [UploadPcap (Capture [pkt_file_ab]), ProcessNext]) = []"
    by code_simp+
  with t h1 h2 h3 show ?thesis by simp
qed

section \<open>Flow keys do not depend on direction\<close>

text \<open>
  C3: the flow key of a packet from \<open>a\<close> to \<open>b\<close> is the flow key of a packet from
  \<open>b\<close> to \<open>a\<close>, for all address strings, and it is the pair in lexicographic order.
\<close>

theorem conversation_key_commute:
  "conversation_key a b = conversation_key b a
   \<and> fst (conversation_key a b) \<le> snd (conversation_key a b)
   \<and> {fst (conversation_key a b), snd (conversation_key a b)} = {a, b}"
  by (auto simp: conversation_key_def)

section \<open>Counts and packet lists\<close>

text \<open>
  C4: in every state the application reaches, on every host and whatever the events
  and their interleaving, each conversation of the store has a count equal to the
  length of its packet list.
\<close>

theorem count_is_length:
  "\<forall>item \<in> set (conversations (run clk init es)).
     conv_count (snd item) = length (conv_packets (snd item))"
proof -
  have "conv_all (\<lambda>c. conv_count c = length (conv_packets c)) (conversations (run clk init es))"
    by (rule conv_all_run) (simp_all add: default_conversation_def record_packet_def)
  then show ?thesis by (simp add: conv_all_def list_all_iff)
qed

theorem count_is_length_witness:
  "map fst (conversations (run utc_clock init
      [Callback pkt_ab, Callback pkt_ba, ProcessNext, Callback pkt_ac, ProcessNext, ProcessNext]))
     = [(host_a, host_b), (host_a, host_c)]
   \<and> list_all (\<lambda>item. conv_count (snd item) = length (conv_packets (snd item)))
        (conversations (run utc_clock init
      [Callback pkt_ab, Callback pkt_ba, ProcessNext, Callback pkt_ac, ProcessNext, ProcessNext]))"
proof
  show "map fst (conversations (run utc_clock init
      [Callback pkt_ab, Callback pkt_ba, ProcessNext, Callback pkt_ac, ProcessNext, ProcessNext]))
     = [(host_a, host_b), (host_a, host_c)]"
    by code_simp
  show "list_all (\<lambda>item. conv_count (snd item) = length (conv_packets (snd item)))
        (conversations (run utc_clock init
      [Callback pkt_ab, Callback pkt_ba, ProcessNext, Callback pkt_ac, ProcessNext, ProcessNext]))"
    unfolding list_all_iff
    by (rule count_is_length)
qed

section \<open>Sequence numbers\<close>







section \<open>Packets without an IP layer\<close>

text \<open>
  C7: a packet without an IP layer changes nothing. The capture callback returns the
  state it was given (nothing is queued, the graph is untouched), \<^verbatim>\<open>_process_packet\<close>
  returns at once, and a run in which such a packet arrives goes on as if it had not:
  same store, packet log, graph, table, pending calls and list of callback errors.
\<close>

theorem non_ip_packet_ignored:
  assumes "ip p = None"
  shows "packet_callback s p = s \<and> process_packet clk s p = s
         \<and> run clk init (es @ Callback p # es') = run clk init (es @ es')"
  using assms
  by (simp add: packet_callback_def process_packet_no_ip run_append run_Cons)

theorem non_ip_packet_ignored_witness:
  "ip pkt_arp = None
   \<and> packet_callback init pkt_arp = init \<and> process_packet utc_clock init pkt_arp = init
   \<and> run utc_clock init ([StartSniffing, Callback pkt_ab] @ Callback pkt_arp # [ProcessNext])
       = run utc_clock init ([StartSniffing, Callback pkt_ab] @ [ProcessNext])"
proof -
  have h: "ip pkt_arp = None" by (simp add: pkt_arp_def)
  from h non_ip_packet_ignored [OF h, of init utc_clock "[StartSniffing, Callback pkt_ab]" "[ProcessNext]"]
  show ?thesis
    by (rule conjI)
qed

section \<open>The conversation list\<close>

text \<open>
  C8: the list that \<^verbatim>\<open>update_conversations_list\<close> produces in a state the application
  reaches is in descending order of count; its entries with one count are the
  conversations of the store with that count, in the store's order; and the store's
  order is the order in which the flow keys were first seen in the packet log. So the
  list produced is the store sorted by count, descending, ties in first-seen order.
\<close>

theorem conversation_list_sorted_stable:
  "sorted_wrt (\<lambda>a b. snd b \<le> snd a)
     (conv_scroll_frame (update_conversations_list (run clk init es)))
   \<and> (\<forall>c. filter (\<lambda>b. snd b = c) (conv_scroll_frame (update_conversations_list (run clk init es)))
          = map (\<lambda>item. (fst item, conv_count (snd item)))
              (filter (\<lambda>item. conv_count (snd item) = c) (conversations (run clk init es))))
   \<and> map fst (conversations (run clk init es))
       = first_seen (List.map_filter packet_key (packets (run clk init es)))"
  using order_ok_run [of clk es]
  by (simp add: update_conversations_list_fields buttons_descending buttons_stable
      order_ok_def flow_log_def)

theorem conversation_list_sorted_stable_witness:
  "conv_scroll_frame (update_conversations_list (run utc_clock init
      [Callback pkt_ac, ProcessNext, Callback pkt_ab, ProcessNext, Callback pkt_ba, ProcessNext,
       Callback pkt_ac, ProcessNext, Callback pkt_ab, ProcessNext]))
     = [((host_a, host_b), 3), ((host_a, host_c), 2)]
   \<and> conv_scroll_frame (update_conversations_list (run utc_clock init
      [Callback pkt_ac, ProcessNext, Callback pkt_ab, ProcessNext, Callback pkt_ba, ProcessNext,
       Callback pkt_ac, ProcessNext]))
     = [((host_a, host_c), 2), ((host_a, host_b), 2)]
   \<and> sorted_wrt (\<lambda>a b. snd b \<le> snd a)
       (conv_scroll_frame (update_conversations_list (run utc_clock init
      [Callback pkt_ac, ProcessNext, Callback pkt_ab, ProcessNext, Callback pkt_ba, ProcessNext,
       Callback pkt_ac, ProcessNext])))
   \<and> map fst (conversations (run utc_clock init
      [Callback pkt_ac, ProcessNext, Callback pkt_ab, ProcessNext, Callback pkt_ba, ProcessNext,
       Callback pkt_ac, ProcessNext]))
       = first_seen (List.map_filter packet_key (packets (run utc_clock init
      [Callback pkt_ac, ProcessNext, Callback pkt_ab, ProcessNext, Callback pkt_ba, ProcessNext,
       Callback pkt_ac, ProcessNext])))"
proof -
  have "conv_scroll_frame (update_conversations_list (run utc_clock init
      [Callback pkt_ac, ProcessNext, Callback pkt_ab, ProcessNext, Callback pkt_ba, ProcessNext,
       Callback pkt_ac, ProcessNext, Callback pkt_ab, ProcessNext]))
     = [((host_a, host_b), 3), ((host_a, host_c), 2)]"
    by code_simp
  moreover have "conv_scroll_frame (update_conversations_list (run utc_clock init
      [Callback pkt_ac, ProcessNext, Callback pkt_ab, ProcessNext, Callback pkt_ba, ProcessNext,
       Callback pkt_ac, ProcessNext]))
     = [((host_a, host_c), 2), ((host_a, host_b), 2)]"
    by code_simp
  ultimately show ?thesis
    using conversation_list_sorted_stable [of utc_clock
      "[Callback pkt_ac, ProcessNext, Callback pkt_ab, ProcessNext, Callback pkt_ba, ProcessNext,
       Callback pkt_ac, ProcessNext]"]
    by blast
qed

section \<open>The address lookup and private ranges\<close>

text \<open>
  C9 fails on the code: \<^verbatim>\<open>_fetch_ip_info\<close> compares the text of the address with the
  four prefixes \<^verbatim>\<open>10.\<close>, \<^verbatim>\<open>192.168.\<close>, \<^verbatim>\<open>172.16.\<close> and \<^verbatim>\<open>127.0.0.1\<close>. The address
  172.20.1.1 lies in 172.16.0.0/12 and 127.0.0.2 is a loopback address, and for both
  the lookup requests the address from the remote service, whatever the network
  answers. For 192.168.1.5 it answers locally, without a request.
\<close>

theorem private_address_is_requested:
  "in_private_range ''172.20.1.1''
   \<and> snd (fetch_ip_info net ''172.20.1.1'') = [''http://ip-api.com/json/172.20.1.1'']
   \<and> in_private_range ''127.0.0.2''
   \<and> snd (fetch_ip_info net ''127.0.0.2'') = [''http://ip-api.com/json/127.0.0.2'']
   \<and> in_private_range ''192.168.1.5''
   \<and> fetch_ip_info net ''192.168.1.5''
       = (Inr (''IP: 192.168.1.5'' @ [CHR 0x0A] @ ''Status: Private/Local Address''), [])"
proof -
  have "in_private_range ''172.20.1.1''" "in_private_range ''127.0.0.2''"
    "in_private_range ''192.168.1.5''"
    by code_simp+
  moreover have "snd (fetch_ip_info net ''172.20.1.1'') = [''http://ip-api.com/json/172.20.1.1'']"
    by (simp add: fetch_ip_info_def startswith_def Let_def split: http_result.splits option.splits)
  moreover have "snd (fetch_ip_info net ''127.0.0.2'') = [''http://ip-api.com/json/127.0.0.2'']"
    by (simp add: fetch_ip_info_def startswith_def Let_def split: http_result.splits option.splits)
  moreover have "fetch_ip_info net ''192.168.1.5''
       = (Inr (''IP: 192.168.1.5'' @ [CHR 0x0A] @ ''Status: Private/Local Address''), [])"
    by (simp add: fetch_ip_info_def startswith_def)
  ultimately show ?thesis by simp
qed

section \<open>Row numbers of a selected conversation\<close>




end
